theory Spec2Isabelle
  imports Complex_Main
begin

section \<open>Conway's Game of Life: the simulation and interaction core of game-of-life.tsx\<close>

subsection \<open>Arrays and cells\<close>

text \<open>
  The grid is a JavaScript array of arrays of booleans. A slot of a JavaScript array
  may be a hole or hold \<open>undefined\<close> (reading past the end gives \<open>undefined\<close>, writing
  past the end extends the array and leaves holes), so a slot is a \<open>bool option\<close>:
  \<open>None\<close> stands for a hole or \<open>undefined\<close>, which every read in this program treats alike
  (the program only ever tests a cell for truthiness).
\<close>

type_synonym cell = "bool option"
type_synonym grid = "cell list list"

definition truthy :: "cell \<Rightarrow> bool" where
  "truthy c = (c = Some True)"

text \<open>\<open>arr[i]\<close> as a read: \<open>undefined\<close> outside the array.\<close>

definition jsGet :: "cell list \<Rightarrow> nat \<Rightarrow> cell" where
  "jsGet xs i = (if i < length xs then xs ! i else None)"

text \<open>\<open>arr[i] = v\<close>: in range the slot is replaced, out of range the array grows to
  length \<open>i + 1\<close> and the slots in between are holes.\<close>

definition jsPut :: "cell list \<Rightarrow> nat \<Rightarrow> bool \<Rightarrow> cell list" where
  "jsPut xs i v =
     (if i < length xs then xs[i := Some v]
      else xs @ replicate (i - length xs) None @ [Some v])"

text \<open>\<open>grid[r][c]\<close> for a row index \<open>r\<close> inside the outer array.\<close>

definition cellAt :: "grid \<Rightarrow> nat \<Rightarrow> nat \<Rightarrow> cell" where
  "cellAt g r c = jsGet (g ! r) c"

subsection \<open>countNeighbors\<close>

definition directions :: "(int \<times> int) list" where
  "directions =
     [(-1, -1), (-1, 0), (-1, 1), (0, -1), (0, 1), (1, -1), (1, 0), (1, 1)]"

text \<open>The guard of the loop body. JavaScript's \<open>&&\<close> evaluates \<open>grid[0].length\<close> only
  after \<open>newRow < grid.length\<close> has held for a non-negative \<open>newRow\<close>, so the grid has a
  row 0 whenever its length is read.\<close>

definition inGrid :: "grid \<Rightarrow> int \<Rightarrow> int \<Rightarrow> bool" where
  "inGrid g newRow newCol =
     (if newRow \<ge> 0 \<and> newRow < int (length g)
      then newCol \<ge> 0 \<and> newCol < int (length (g ! 0))
      else False)"

text \<open>The \<open>for (const [dx, dy] of directions)\<close> loop, with the running \<open>count\<close>.\<close>

fun countLoop :: "grid \<Rightarrow> int \<Rightarrow> int \<Rightarrow> (int \<times> int) list \<Rightarrow> int \<Rightarrow> int" where
  "countLoop g row col [] count = count"
| "countLoop g row col ((dx, dy) # ds) count =
     (let newRow = row + dx; newCol = col + dy
      in if inGrid g newRow newCol
         then (if truthy (cellAt g (nat newRow) (nat newCol))
               then countLoop g row col ds (count + 1)
               else countLoop g row col ds count)
         else countLoop g row col ds count)"

definition countNeighbors :: "grid \<Rightarrow> int \<Rightarrow> int \<Rightarrow> int" where
  "countNeighbors g row col = countLoop g row col directions 0"

subsection \<open>nextGeneration\<close>

text \<open>The body of the inner loop: one cell of \<open>newGrid\<close> is written, everything is read
  from \<open>currentGrid\<close>. The row index is inside \<open>newGrid\<close>, which has as many rows as
  \<open>currentGrid\<close>.\<close>

definition cellUpdate :: "grid \<Rightarrow> grid \<Rightarrow> nat \<Rightarrow> nat \<Rightarrow> grid" where
  "cellUpdate currentGrid newGrid row col =
     (let neighbors = countNeighbors currentGrid (int row) (int col);
          isAlive = truthy (cellAt currentGrid row col)
      in if isAlive
         then newGrid[row := jsPut (newGrid ! row) col (neighbors = 2 \<or> neighbors = 3)]
         else newGrid[row := jsPut (newGrid ! row) col (neighbors = 3)])"

text \<open>The two nested \<open>for\<close> loops run over \<open>0 ..< currentGrid.length\<close> and
  \<open>0 ..< currentGrid[0].length\<close>; \<open>newGrid\<close> starts as a row-by-row copy of
  \<open>currentGrid\<close>. This is the function on grid values; that the copy
  shares no row with the input is the subject of the store-level model below.\<close>

definition rowLoop :: "grid \<Rightarrow> nat \<Rightarrow> grid \<Rightarrow> grid" where
  "rowLoop currentGrid row newGrid =
     fold (\<lambda>col ng. cellUpdate currentGrid ng row col)
          [0 ..< length (currentGrid ! 0)] newGrid"

definition nextGeneration :: "grid \<Rightarrow> grid" where
  "nextGeneration currentGrid =
     fold (rowLoop currentGrid) [0 ..< length currentGrid]
          (map (\<lambda>row. row) currentGrid)"

definition getPopulation :: "grid \<Rightarrow> nat" where
  "getPopulation g = length (filter truthy (concat g))"

subsection \<open>nextGeneration on a store of row arrays\<close>

text \<open>
  Arrays are objects: \<open>newGrid[row][col] = v\<close> writes into whichever array
  \<open>newGrid[row]\<close> refers to. To account for that, rows live in a store (a row's address
  is its index, a fresh array is appended at the end) and an outer array is the list of
  the addresses of its rows. \<open>nextGeneration\<close> never writes to an outer array, so outer
  arrays are plain values here. Every read goes to the store as it is at that moment,
  and the bound \<open>currentGrid[0].length\<close> of the inner loop is read again at every
  iteration.
\<close>

type_synonym rowStore = "cell list list"

definition deref :: "rowStore \<Rightarrow> nat list \<Rightarrow> grid" where
  "deref st refs = map (\<lambda>a. st ! a) refs"

text \<open>\<open>currentGrid.map((row) => [...row])\<close>: one fresh array per row, in order.\<close>

fun copyRows :: "rowStore \<Rightarrow> nat list \<Rightarrow> nat list \<Rightarrow> rowStore \<times> nat list" where
  "copyRows st [] newRefs = (st, newRefs)"
| "copyRows st (a # rest) newRefs =
     copyRows (st @ [map (\<lambda>c. c) (st ! a)]) rest (newRefs @ [length st])"

definition cellUpdateS :: "nat list \<Rightarrow> nat list \<Rightarrow> nat \<Rightarrow> nat \<Rightarrow> rowStore \<Rightarrow> rowStore" where
  "cellUpdateS currentGrid newGrid row col st =
     (let neighbors = countNeighbors (deref st currentGrid) (int row) (int col);
          isAlive = truthy (cellAt (deref st currentGrid) row col)
      in if isAlive
         then st[newGrid ! row := jsPut (st ! (newGrid ! row)) col (neighbors = 2 \<or> neighbors = 3)]
         else st[newGrid ! row := jsPut (st ! (newGrid ! row)) col (neighbors = 3)])"

function colLoopS :: "nat list \<Rightarrow> nat list \<Rightarrow> nat \<Rightarrow> nat \<Rightarrow> rowStore \<Rightarrow> rowStore" where
  "colLoopS currentGrid newGrid row col st =
     (if col < length (st ! (currentGrid ! 0))
      then colLoopS currentGrid newGrid row (Suc col) (cellUpdateS currentGrid newGrid row col st)
      else st)"
  by pat_completeness auto
termination
proof (relation "measure (\<lambda>(cur, new, row, col, st). length (st ! (cur ! 0)) - col)", goal_cases)
  case 1
  show ?case by simp
next
  case (2 currentGrid newGrid row col st)
  have "length (st[a := jsPut (st ! a) col v] ! (currentGrid ! 0))
        = length (st ! (currentGrid ! 0))" for a v
  proof (cases "a = currentGrid ! 0")
    case True
    show ?thesis
    proof (cases "a < length st")
      case True
      with \<open>a = currentGrid ! 0\<close> 2 show ?thesis by (simp add: jsPut_def)
    next
      case False
      then show ?thesis by (simp add: list_update_beyond)
    qed
  next
    case False
    then show ?thesis by simp
  qed
  then have "length (cellUpdateS currentGrid newGrid row col st ! (currentGrid ! 0))
             = length (st ! (currentGrid ! 0))"
    by (simp add: cellUpdateS_def Let_def)
  with 2 show ?case by simp
qed

declare colLoopS.simps [simp del]

definition nextGenerationS :: "rowStore \<Rightarrow> nat list \<Rightarrow> rowStore \<times> nat list" where
  "nextGenerationS st currentGrid =
     (case copyRows st currentGrid [] of
        (st1, newGrid) \<Rightarrow>
          (fold (\<lambda>row s. colLoopS currentGrid newGrid row 0 s) [0 ..< length currentGrid] st1,
           newGrid))"

subsection \<open>Grid dimensions and the empty grid\<close>

text \<open>
  \<open>window\<close> is the browser's window object (\<open>None\<close> where \<open>typeof window\<close> is
  \<open>"undefined"\<close>). JavaScript numbers are modelled as reals: the arithmetic of
  \<open>getGridDimensions\<close> is taken exactly, without floating-point rounding.
\<close>

record window =
  innerWidth :: real
  innerHeight :: real

record dimensions =
  rows :: int
  cols :: int
  isMobile :: bool
  isTablet :: bool
  isDesktop :: bool

definition CELL_SIZE :: real where
  "CELL_SIZE = 20"

definition getGridDimensions :: "window option \<Rightarrow> dimensions" where
  "getGridDimensions win =
     (let windowHeight = (case win of Some w \<Rightarrow> innerHeight w | None \<Rightarrow> 800);
          windowWidth = (case win of Some w \<Rightarrow> innerWidth w | None \<Rightarrow> 1200);
          mobile = windowWidth < 768;
          tablet = (windowWidth \<ge> 768 \<and> windowWidth < 1024);
          desktop = windowWidth \<ge> 1024;
          containerHeight =
            (if mobile then max (windowHeight * 0.3) 250
             else if tablet then max (windowHeight - 200) 400
             else max (windowHeight - 200) 500);
          containerWidth =
            (if mobile then max (windowWidth - 40) 300
             else if tablet then max (windowWidth * 0.5) 400
             else max (windowHeight - 200) 500)
      in \<lparr> rows = max (min \<lfloor>containerHeight / CELL_SIZE\<rfloor> (if mobile then 25 else 40)) 8,
           cols = max (min \<lfloor>containerWidth / CELL_SIZE\<rfloor> 40) 10,
           isMobile = mobile, isTablet = tablet, isDesktop = desktop \<rparr>)"

text \<open>The guard of the fallback branch of \<open>initializeGrid\<close>.\<close>

definition invalidDimensions :: "dimensions \<Rightarrow> bool" where
  "invalidDimensions d = (rows d \<le> 0 \<or> cols d \<le> 0 \<or> rows d > 100 \<or> cols d > 100)"

definition initializeGrid :: "window option \<Rightarrow> grid" where
  "initializeGrid win =
     (let d = getGridDimensions win
      in if invalidDimensions d
         then replicate 15 (replicate 20 (Some False))
         else replicate (nat (rows d)) (replicate (nat (cols d)) (Some False)))"

subsection \<open>The component's state and its event handlers\<close>

text \<open>
  The \<open>useState\<close> cells of the component (\<open>showRules\<close>, which only shows a tooltip,
  is left out). \<open>speed\<close> is the single entry of the one-element array the source keeps;
  \<open>generation\<close> is a counter that starts at 0 and is only ever incremented or reset,
  a natural number here (the loss of precision of a JavaScript number beyond \<open>2^53\<close>
  is not modelled). The grid held in the state is a grid value. Each handler is a
  function from the state of the render it closes over to the state after its queued
  updates have been applied; events are handled one at a time. A handler that throws
  returns \<open>Inl\<close>. React may call an updater function more than once: once in a
  production build, twice in a development build under StrictMode. The updaters of the
  pointer handlers only compute a grid, so the number of calls makes no difference to
  them; the updater of the game loop also calls \<open>setGeneration\<close>, and is modelled
  with its calls.
\<close>

datatype dragMode = Paint | Erase

datatype jsError = TypeError

record gameState =
  grid :: grid
  isRunning :: bool
  generation :: nat
  speed :: int
  isDragging :: bool
  dragMode :: dragMode

definition initialState :: gameState where
  "initialState =
     \<lparr> grid = [], isRunning = False, generation = 0, speed = 500,
       isDragging = False, dragMode = Paint \<rparr>"

datatype renderMode = Production | StrictDevelopment

definition updaterInvocations :: "renderMode \<Rightarrow> nat" where
  "updaterInvocations mode = (case mode of Production \<Rightarrow> 1 | StrictDevelopment \<Rightarrow> 2)"

text \<open>The updater the interval callback passes to \<open>setGrid\<close>. It returns the new grid
  and, while it runs, calls \<open>setGeneration((gen) => gen + 1)\<close>: each call of the
  updater queues one update of the counter.\<close>

definition gridUpdater :: "grid \<Rightarrow> grid \<times> (nat \<Rightarrow> nat) list" where
  "gridUpdater currentGrid =
     (let newGrid = nextGeneration currentGrid
      in (newGrid, [\<lambda>gen. gen + 1]))"

text \<open>One firing of the interval: the updater is called on the current grid as often
  as the render mode has it, the grid returned becomes the state's grid, and every
  queued update of the counter is applied, in order.\<close>

definition intervalCallback :: "renderMode \<Rightarrow> gameState \<Rightarrow> gameState" where
  "intervalCallback mode s =
     (let invocations = replicate (updaterInvocations mode) (gridUpdater (grid s));
          newGrid = fst (last invocations);
          queued = concat (map snd invocations)
      in s\<lparr> grid := newGrid,
            generation := fold (\<lambda>update gen. update gen) queued (generation s) \<rparr>)"

text \<open>The effect arms the interval only while \<open>isRunning\<close>: with no interval armed
  there is no tick (\<open>None\<close>).\<close>

definition gameLoopTick :: "renderMode \<Rightarrow> gameState \<Rightarrow> gameState option" where
  "gameLoopTick mode s = (if isRunning s then Some (intervalCallback mode s) else None)"

text \<open>The two grid updaters copy the outer array and the row they write
  (\<open>[...currentGrid]\<close>, \<open>[...newGrid[row]]\<close>); spreading \<open>newGrid[row]\<close> throws a
  TypeError when \<open>row\<close> is outside the outer array.\<close>

definition toggleCell :: "nat \<Rightarrow> nat \<Rightarrow> grid \<Rightarrow> jsError + grid" where
  "toggleCell row col currentGrid =
     (if row < length currentGrid
      then Inr (currentGrid[row := jsPut (currentGrid ! row) col
                                     (\<not> truthy (jsGet (currentGrid ! row) col))])
      else Inl TypeError)"

definition dragCell :: "dragMode \<Rightarrow> nat \<Rightarrow> nat \<Rightarrow> grid \<Rightarrow> jsError + grid" where
  "dragCell mode row col currentGrid =
     (if row < length currentGrid
      then Inr (currentGrid[row := jsPut (currentGrid ! row) col (mode = Paint)])
      else Inl TypeError)"

text \<open>\<open>grid[row][col] ? "erase" : "paint"\<close>, read from the grid of the current render;
  \<open>grid[row]\<close> is \<open>undefined\<close> outside the outer array and indexing it throws.\<close>

definition pressedMode :: "grid \<Rightarrow> nat \<Rightarrow> nat \<Rightarrow> jsError + dragMode" where
  "pressedMode g row col =
     (if row < length g
      then Inr (if truthy (cellAt g row col) then Erase else Paint)
      else Inl TypeError)"

definition handleCellInteraction :: "gameState \<Rightarrow> nat \<Rightarrow> nat \<Rightarrow> bool \<Rightarrow> jsError + gameState" where
  "handleCellInteraction s row col isClick =
     (if isRunning s then Inr s
      else if isClick then
        (case toggleCell row col (grid s) of
           Inl e \<Rightarrow> Inl e
         | Inr newGrid \<Rightarrow>
             (case pressedMode (grid s) row col of
                Inl e \<Rightarrow> Inl e
              | Inr mode \<Rightarrow> Inr (s\<lparr> grid := newGrid, dragMode := mode \<rparr>)))
      else if isDragging s then
        (case dragCell (dragMode s) row col (grid s) of
           Inl e \<Rightarrow> Inl e
         | Inr newGrid \<Rightarrow> Inr (s\<lparr> grid := newGrid \<rparr>))
      else Inr s)"

definition handleMouseDown :: "gameState \<Rightarrow> nat \<Rightarrow> nat \<Rightarrow> jsError + gameState" where
  "handleMouseDown s row col =
     (if isRunning s then Inr s
      else (case handleCellInteraction s row col True of
              Inl e \<Rightarrow> Inl e
            | Inr s' \<Rightarrow> Inr (s'\<lparr> isDragging := True \<rparr>)))"

definition handleMouseEnter :: "gameState \<Rightarrow> nat \<Rightarrow> nat \<Rightarrow> jsError + gameState" where
  "handleMouseEnter s row col = handleCellInteraction s row col False"

definition handleMouseUp :: "gameState \<Rightarrow> gameState" where
  "handleMouseUp s = s\<lparr> isDragging := False \<rparr>"

definition clearGrid :: "window option \<Rightarrow> gameState \<Rightarrow> gameState" where
  "clearGrid win s = s\<lparr> grid := initializeGrid win, generation := 0, isRunning := False \<rparr>"

definition toggleRunning :: "gameState \<Rightarrow> gameState" where
  "toggleRunning s = s\<lparr> isRunning := \<not> isRunning s \<rparr>"

text \<open>The slider's \<open>onValueChange\<close>, applied to \<open>value[0]\<close>.\<close>

definition onValueChange :: "int \<Rightarrow> gameState \<Rightarrow> gameState" where
  "onValueChange value0 s = s\<lparr> speed := 2100 - value0 \<rparr>"

text \<open>A drag gesture after the press: the cells the pointer enters, in order.\<close>

fun enterCells :: "gameState \<Rightarrow> (nat \<times> nat) list \<Rightarrow> jsError + gameState" where
  "enterCells s [] = Inr s"
| "enterCells s ((row, col) # rest) =
     (case handleMouseEnter s row col of
        Inl e \<Rightarrow> Inl e
      | Inr s' \<Rightarrow> enterCells s' rest)"

subsection \<open>The vocabulary of the specification\<close>

text \<open>A rectangular grid of \<open>R\<close> rows and \<open>C\<close> columns, every slot a boolean.\<close>

definition rectangular :: "nat \<Rightarrow> nat \<Rightarrow> grid \<Rightarrow> bool" where
  "rectangular R C g =
     (length g = R \<and> list_all (\<lambda>row. length row = C \<and> list_all (\<lambda>c. c \<noteq> None) row) g)"

text \<open>The 8 offsets of the neighbourhood, those of them that land inside
  \<open>[0,R) \<times> [0,C)\<close> from a cell, and those of them that land on a live cell.\<close>

definition neighbourOffsets :: "(int \<times> int) set" where
  "neighbourOffsets = ({-1, 0, 1} \<times> {-1, 0, 1}) - {(0, 0)}"

definition insideOffsets :: "nat \<Rightarrow> nat \<Rightarrow> int \<Rightarrow> int \<Rightarrow> (int \<times> int) set" where
  "insideOffsets R C row col =
     {(dr, dc) \<in> neighbourOffsets.
        0 \<le> row + dr \<and> row + dr < int R \<and> 0 \<le> col + dc \<and> col + dc < int C}"

definition liveNeighbourOffsets :: "nat \<Rightarrow> nat \<Rightarrow> grid \<Rightarrow> int \<Rightarrow> int \<Rightarrow> (int \<times> int) set" where
  "liveNeighbourOffsets R C g row col =
     {(dr, dc) \<in> insideOffsets R C row col. g ! nat (row + dr) ! nat (col + dc) = Some True}"

text \<open>The rule B3/S23 as the specification words it.\<close>

definition b3s23 :: "bool \<Rightarrow> int \<Rightarrow> bool" where
  "b3s23 alive n = ((alive \<and> (n = 2 \<or> n = 3)) \<or> (\<not> alive \<and> n = 3))"

definition nextCell :: "grid \<Rightarrow> nat \<Rightarrow> nat \<Rightarrow> cell" where
  "nextCell g r c = Some (b3s23 (g ! r ! c = Some True) (countNeighbors g (int r) (int c)))"

definition liveOffset :: "grid \<Rightarrow> int \<Rightarrow> int \<Rightarrow> int \<times> int \<Rightarrow> bool" where
  "liveOffset g row col d =
     (inGrid g (row + fst d) (col + snd d)
      \<and> truthy (cellAt g (nat (row + fst d)) (nat (col + snd d))))"

text \<open>The grid of \<open>R\<close> rows and \<open>C\<close> columns whose live cells are those of a
  predicate, the two phases of the blinker centred at \<open>(r, c)\<close>, and the contribution
  of one position to a neighbour count.\<close>

definition gridOf :: "nat \<Rightarrow> nat \<Rightarrow> (nat \<Rightarrow> nat \<Rightarrow> bool) \<Rightarrow> grid" where
  "gridOf R C f = map (\<lambda>i. map (\<lambda>j. Some (f i j)) [0 ..< C]) [0 ..< R]"

definition horizontalBlinker :: "nat \<Rightarrow> nat \<Rightarrow> nat \<Rightarrow> nat \<Rightarrow> bool" where
  "horizontalBlinker r c i j = (i = r \<and> (j + 1 = c \<or> j = c \<or> j = c + 1))"

definition verticalBlinker :: "nat \<Rightarrow> nat \<Rightarrow> nat \<Rightarrow> nat \<Rightarrow> bool" where
  "verticalBlinker r c i j = (j = c \<and> (i + 1 = r \<or> i = r \<or> i = r + 1))"

definition hit :: "nat \<Rightarrow> nat \<Rightarrow> (nat \<Rightarrow> nat \<Rightarrow> bool) \<Rightarrow> int \<Rightarrow> int \<Rightarrow> int" where
  "hit R C f a b =
     (if 0 \<le> a \<and> a < int R \<and> 0 \<le> b \<and> b < int C \<and> f (nat a) (nat b) then 1 else 0)"

text \<open>A 3 by 3 grid holding a horizontal blinker, the 2 by 2 block (a still life) and a
  running state that holds it, and the 3 by 3 grid with the blinker vertical.\<close>

definition blinkerRow3 :: grid where
  "blinkerRow3 =
     [[Some False, Some False, Some False],
      [Some True, Some True, Some True],
      [Some False, Some False, Some False]]"



definition blinkerColumn3 :: grid where
  "blinkerColumn3 =
     [[Some False, Some True, Some False],
      [Some False, Some True, Some False],
      [Some False, Some True, Some False]]"

section \<open>Neighbour counting\<close>

lemma countLoop_filter:
  "countLoop g row col ds count = count + int (length (filter (liveOffset g row col) ds))"
  by (induction ds arbitrary: count) (auto simp: liveOffset_def Let_def)

lemma countNeighbors_filter:
  "countNeighbors g row col = int (length (filter (liveOffset g row col) directions))"
  by (simp add: countNeighbors_def countLoop_filter)

lemma distinct_directions: "distinct directions"
  by (simp add: directions_def)

lemma set_directions: "set directions = neighbourOffsets"
  by (auto simp: directions_def neighbourOffsets_def)

lemma countNeighbors_card:
  "countNeighbors g row col = int (card {d \<in> neighbourOffsets. liveOffset g row col d})"
  unfolding countNeighbors_filter
  using distinct_length_filter[OF distinct_directions, of "liveOffset g row col"]
  by (simp add: set_directions Int_def conj_commute)

lemma rectangular_row0:
  "rectangular R C g \<Longrightarrow> 0 < R \<Longrightarrow> length (g ! 0) = C"
  by (cases g) (auto simp: rectangular_def)

lemma rectangular_row:
  "rectangular R C g \<Longrightarrow> r < R \<Longrightarrow> length (g ! r) = C"
  by (auto simp: rectangular_def list_all_length)

lemma rectangular_cell:
  "rectangular R C g \<Longrightarrow> r < R \<Longrightarrow> c < C \<Longrightarrow> \<exists>b. g ! r ! c = Some b"
  by (auto simp: rectangular_def list_all_length)

lemma inGrid_rectangular:
  "rectangular R C g \<Longrightarrow>
   inGrid g r c = (0 \<le> r \<and> r < int R \<and> 0 \<le> c \<and> c < int C)"
  using rectangular_row0[of R C g]
  by (auto simp: inGrid_def rectangular_def)

lemma liveOffset_rectangular:
  assumes "rectangular R C g"
  shows "{d \<in> neighbourOffsets. liveOffset g row col d} = liveNeighbourOffsets R C g row col"
  using assms rectangular_row[OF assms]
  by (auto simp: liveOffset_def liveNeighbourOffsets_def insideOffsets_def
      inGrid_rectangular truthy_def cellAt_def jsGet_def)

lemma finite_neighbourOffsets: "finite neighbourOffsets"
  by (simp add: neighbourOffsets_def)

lemma card_neighbourOffsets: "card neighbourOffsets = 8"
  using distinct_card[OF distinct_directions] by (simp add: set_directions[symmetric] directions_def)

lemma insideOffsets_border:
  assumes "row = 0 \<or> col = 0 \<or> row = int R - 1 \<or> col = int C - 1"
  shows "card (insideOffsets R C row col) \<le> 5"
proof -
  consider "row = 0" | "col = 0" | "row = int R - 1" | "col = int C - 1"
    using assms by blast
  then show ?thesis
  proof cases
    case 1
    have "insideOffsets R C row col \<subseteq> {(0, -1), (0, 1), (1, -1), (1, 0), (1, 1)}"
      using 1 by (auto simp: insideOffsets_def neighbourOffsets_def)
    from card_mono[OF _ this] show ?thesis by simp
  next
    case 2
    have "insideOffsets R C row col \<subseteq> {(-1, 0), (-1, 1), (0, 1), (1, 0), (1, 1)}"
      using 2 by (auto simp: insideOffsets_def neighbourOffsets_def)
    from card_mono[OF _ this] show ?thesis by simp
  next
    case 3
    have "insideOffsets R C row col \<subseteq> {(-1, -1), (-1, 0), (-1, 1), (0, -1), (0, 1)}"
      using 3 by (auto simp: insideOffsets_def neighbourOffsets_def)
    from card_mono[OF _ this] show ?thesis by simp
  next
    case 4
    have "insideOffsets R C row col \<subseteq> {(-1, -1), (-1, 0), (0, -1), (1, -1), (1, 0)}"
      using 4 by (auto simp: insideOffsets_def neighbourOffsets_def)
    from card_mono[OF _ this] show ?thesis by simp
  qed
qed

lemma live_subset_inside: "liveNeighbourOffsets R C g row col \<subseteq> insideOffsets R C row col"
  by (auto simp: liveNeighbourOffsets_def)

lemma inside_subset_offsets: "insideOffsets R C row col \<subseteq> neighbourOffsets"
  by (auto simp: insideOffsets_def)

lemma finite_insideOffsets: "finite (insideOffsets R C row col)"
  using inside_subset_offsets finite_neighbourOffsets by (rule finite_subset)


text \<open>
  Claim C2. On a rectangular grid of \<open>R\<close> rows and \<open>C\<close> columns and at a valid
  coordinate, \<open>countNeighbors\<close> returns the number of the 8 neighbourhood offsets that
  land inside the grid on a live cell; the result lies between 0 and 8 and is at most
  the number of offsets that land inside the grid, and at a cell of row 0, column 0,
  row \<open>R - 1\<close> or column \<open>C - 1\<close> at most 5 of the 8 offsets land inside (nothing wraps
  around).
\<close>

theorem countNeighbors_hard_edge:
  assumes "rectangular R C g" and "0 \<le> row" and "row < int R" and "0 \<le> col" and "col < int C"
  shows "countNeighbors g row col = int (card (liveNeighbourOffsets R C g row col))
         \<and> 0 \<le> countNeighbors g row col
         \<and> countNeighbors g row col \<le> 8
         \<and> countNeighbors g row col \<le> int (card (insideOffsets R C row col))
         \<and> (row = 0 \<or> col = 0 \<or> row = int R - 1 \<or> col = int C - 1
              \<longrightarrow> card (insideOffsets R C row col) \<le> 5)"
proof -
  have eq: "countNeighbors g row col = int (card (liveNeighbourOffsets R C g row col))"
    by (simp add: countNeighbors_card liveOffset_rectangular[OF assms(1)])
  have "card (liveNeighbourOffsets R C g row col) \<le> card (insideOffsets R C row col)"
    by (rule card_mono[OF finite_insideOffsets live_subset_inside])
  then have le: "countNeighbors g row col \<le> int (card (insideOffsets R C row col))"
    by (simp add: eq)
  have "card (insideOffsets R C row col) \<le> card neighbourOffsets"
    by (rule card_mono[OF finite_neighbourOffsets inside_subset_offsets])
  with le have le8: "countNeighbors g row col \<le> 8"
    by (simp add: card_neighbourOffsets)
  show ?thesis
    using eq le le8 insideOffsets_border[of row col R C] by simp
qed

theorem countNeighbors_hard_edge_witness:
  "rectangular 2 2 [[Some True, Some True], [Some True, Some True]]
   \<and> countNeighbors [[Some True, Some True], [Some True, Some True]] 0 0 = 3
   \<and> card (liveNeighbourOffsets 2 2 [[Some True, Some True], [Some True, Some True]] 0 0) = 3
   \<and> card (insideOffsets 2 2 0 0) \<le> 5"
proof -
  have r: "rectangular 2 2 [[Some True, Some True], [Some True, Some True]]"
    by code_simp
  have c: "countNeighbors [[Some True, Some True], [Some True, Some True]] 0 0 = 3"
    by code_simp
  have h: "countNeighbors [[Some True, Some True], [Some True, Some True]] 0 0
             = int (card (liveNeighbourOffsets 2 2 [[Some True, Some True], [Some True, Some True]] 0 0))
           \<and> card (insideOffsets 2 2 0 0) \<le> 5"
    using countNeighbors_hard_edge[OF r, of 0 0] by simp
  from h c have "card (liveNeighbourOffsets 2 2 [[Some True, Some True], [Some True, Some True]] 0 0) = 3"
    by linarith
  with h c r show ?thesis
    by blast
qed

section \<open>The step function\<close>

lemma cellUpdate_eq:
  assumes "r < length cur" "c < length (cur ! r)"
  shows "cellUpdate cur ng r c = ng[r := jsPut (ng ! r) c (the (nextCell cur r c))]"
  using assms
  by (simp add: cellUpdate_def nextCell_def b3s23_def Let_def truthy_def cellAt_def jsGet_def)

lemma jsPut_inside: "c < length xs \<Longrightarrow> jsPut xs c v = xs[c := Some v]"
  by (simp add: jsPut_def)

lemma colLoop_prefix:
  assumes "r < length cur" and "length (cur ! r) = C" and "r < length ng" and "length (ng ! r) = C"
    and "k \<le> C"
  shows "fold (\<lambda>col ng. cellUpdate cur ng r col) [0 ..< k] ng
         = ng[r := map (\<lambda>c. if c < k then nextCell cur r c else ng ! r ! c) [0 ..< C]]"
  using assms(5)
proof (induction k)
  case 0
  have "map (\<lambda>c. ng ! r ! c) [0 ..< C] = ng ! r"
    using assms(4) by (auto intro!: nth_equalityI)
  then show ?case by simp
next
  case (Suc k)
  let ?X = "map (\<lambda>c. if c < k then nextCell cur r c else ng ! r ! c) [0 ..< C]"
  have k: "k < C" using Suc.prems by simp
  have step: "jsPut ?X k (the (nextCell cur r k))
        = map (\<lambda>c. if c < Suc k then nextCell cur r c else ng ! r ! c) [0 ..< C]"
    using k by (auto simp: jsPut_inside nextCell_def intro!: nth_equalityI simp: nth_list_update)
  have "fold (\<lambda>col ng. cellUpdate cur ng r col) [0 ..< Suc k] ng
        = cellUpdate cur (ng[r := ?X]) r k"
    using Suc by simp
  also have "\<dots> = ng[r := jsPut ?X k (the (nextCell cur r k))]"
    using assms k by (simp add: cellUpdate_eq)
  finally show ?case by (simp only: step)
qed

lemma rowLoop_rectangular:
  assumes "rectangular R C cur" and "r < R" and "length ng = R" and "length (ng ! r) = C"
  shows "rowLoop cur r ng = ng[r := map (nextCell cur r) [0 ..< C]]"
proof -
  have R: "0 < R" using assms(2) by simp
  have "rowLoop cur r ng = ng[r := map (\<lambda>c. if c < C then nextCell cur r c else ng ! r ! c) [0 ..< C]]"
    unfolding rowLoop_def rectangular_row0[OF assms(1) R]
    using assms rectangular_row[OF assms(1,2)]
    by (intro colLoop_prefix) (auto simp: rectangular_def)
  also have "map (\<lambda>c. if c < C then nextCell cur r c else ng ! r ! c) [0 ..< C]
             = map (nextCell cur r) [0 ..< C]"
    by simp
  finally show ?thesis .
qed

lemma outerLoop_prefix:
  assumes "rectangular R C cur" and "length ng = R"
    and "\<And>r. r < R \<Longrightarrow> length (ng ! r) = C" and "k \<le> R"
  shows "fold (rowLoop cur) [0 ..< k] ng
         = map (\<lambda>r. if r < k then map (nextCell cur r) [0 ..< C] else ng ! r) [0 ..< R]"
  using assms(4)
proof (induction k)
  case 0
  show ?case using assms(2) by (auto intro!: nth_equalityI)
next
  case (Suc k)
  let ?G = "map (\<lambda>r. if r < k then map (nextCell cur r) [0 ..< C] else ng ! r) [0 ..< R]"
  have k: "k < R" using Suc.prems by simp
  have "fold (rowLoop cur) [0 ..< Suc k] ng = rowLoop cur k ?G"
    using Suc by simp
  also have "\<dots> = ?G[k := map (nextCell cur k) [0 ..< C]]"
    using assms k by (intro rowLoop_rectangular[OF assms(1)]) auto
  also have "\<dots> = map (\<lambda>r. if r < Suc k then map (nextCell cur r) [0 ..< C] else ng ! r) [0 ..< R]"
    using k by (auto intro!: nth_equalityI simp: nth_list_update)
  finally show ?case .
qed

lemma nextGeneration_rectangular:
  assumes "rectangular R C g"
  shows "nextGeneration g = map (\<lambda>r. map (nextCell g r) [0 ..< C]) [0 ..< R]"
proof -
  have len: "length g = R" using assms by (simp add: rectangular_def)
  have "nextGeneration g = fold (rowLoop g) [0 ..< R] g"
    by (simp add: nextGeneration_def len)
  also have "\<dots> = map (\<lambda>r. if r < R then map (nextCell g r) [0 ..< C] else g ! r) [0 ..< R]"
    using assms len rectangular_row[OF assms] by (intro outerLoop_prefix) auto
  also have "\<dots> = map (\<lambda>r. map (nextCell g r) [0 ..< C]) [0 ..< R]"
    by simp
  finally show ?thesis .
qed

lemma copyRows_append:
  assumes "\<forall>a \<in> set refs. a < length st"
  shows "copyRows st refs acc
         = (st @ deref st refs, acc @ [length st ..< length st + length refs])"
  using assms
proof (induction refs arbitrary: st acc)
  case Nil
  then show ?case by (simp add: deref_def)
next
  case (Cons a refs)
  have valid: "\<forall>b \<in> set refs. b < length (st @ [map (\<lambda>c. c) (st ! a)])"
    using Cons.prems by auto
  have same: "deref (st @ [st ! a]) refs = deref st refs"
    using Cons.prems by (auto simp: deref_def nth_append)
  have range: "[length st ..< Suc (length st + length refs)]
               = length st # [Suc (length st) ..< Suc (length st + length refs)]"
    by (rule upt_conv_Cons) simp
  show ?case
    using Cons.IH[OF valid, of "acc @ [length st]"] same range
    by (simp add: deref_def)
qed

lemma deref_append:
  assumes "\<forall>a \<in> set refs. a < length st"
  shows "deref (st @ ng) refs = deref st refs"
  using assms by (auto simp: deref_def nth_append)

lemma cellUpdateS_fresh:
  assumes "\<forall>a \<in> set cur. a < length st" and "row < length ng"
  shows "cellUpdateS cur [length st ..< length st + length ng] row col (st @ ng)
         = st @ cellUpdate (deref st cur) ng row col"
  using assms(2)
  by (simp add: cellUpdateS_def cellUpdate_def Let_def deref_append[OF assms(1)]
      list_update_append nth_append)

lemma cellUpdate_length: "length (cellUpdate cur ng row col) = length ng"
  by (simp add: cellUpdate_def Let_def)

lemma colLoopS_fresh:
  assumes "\<forall>a \<in> set cur. a < length st" and "row < length ng" and "cur \<noteq> []"
    and "col \<le> length (deref st cur ! 0)"
  shows "colLoopS cur [length st ..< length st + length ng] row col (st @ ng)
         = st @ fold (\<lambda>c g. cellUpdate (deref st cur) g row c)
                  [col ..< length (deref st cur ! 0)] ng"
  using assms(2,4)
proof (induction "length (deref st cur ! 0) - col" arbitrary: col ng)
  case 0
  have c0: "cur ! 0 < length st" using assms(1,3) by (cases cur) auto
  have "(st @ ng) ! (cur ! 0) = deref st cur ! 0"
    using c0 assms(3) by (cases cur) (auto simp: deref_def nth_append)
  then show ?case
    using 0 by (subst colLoopS.simps) simp
next
  case (Suc k)
  have c0: "cur ! 0 < length st" using assms(1,3) by (cases cur) auto
  have row0: "(st @ ng') ! (cur ! 0) = deref st cur ! 0" for ng'
    using c0 assms(3) by (cases cur) (auto simp: deref_def nth_append)
  have lt: "col < length (deref st cur ! 0)" using Suc.hyps(2) by simp
  let ?ng1 = "cellUpdate (deref st cur) ng row col"
  have len1: "length ?ng1 = length ng" by (rule cellUpdate_length)
  have "colLoopS cur [length st ..< length st + length ng] row col (st @ ng)
        = colLoopS cur [length st ..< length st + length ng] row (Suc col) (st @ ?ng1)"
    using lt by (subst colLoopS.simps) (simp add: row0 cellUpdateS_fresh[OF assms(1) Suc.prems(1)])
  also have "\<dots> = st @ fold (\<lambda>c g. cellUpdate (deref st cur) g row c)
                  [Suc col ..< length (deref st cur ! 0)] ?ng1"
    using Suc.hyps(1)[of "Suc col" ?ng1] Suc.hyps(2) Suc.prems(1) lt len1 by simp
  also have "\<dots> = st @ fold (\<lambda>c g. cellUpdate (deref st cur) g row c)
                  [col ..< length (deref st cur ! 0)] ng"
    using lt by (simp add: upt_conv_Cons)
  finally show ?case .
qed


lemma fold_cellUpdate_length:
  "length (fold (\<lambda>c g. cellUpdate cur g row c) cs ng) = length ng"
  by (induction cs arbitrary: ng) (simp_all add: cellUpdate_length)

lemma rowLoop_length: "length (rowLoop cur row ng) = length ng"
  by (simp add: rowLoop_def fold_cellUpdate_length)

lemma rowLoopS_fresh:
  assumes "\<forall>a \<in> set cur. a < length st" and "row < length ng" and "cur \<noteq> []"
  shows "colLoopS cur [length st ..< length st + length ng] row 0 (st @ ng)
         = st @ rowLoop (deref st cur) row ng"
  using colLoopS_fresh[OF assms, of 0] by (simp add: rowLoop_def)

lemma outerLoopS_fresh:
  assumes "\<forall>a \<in> set cur. a < length st" and "\<forall>row \<in> set rs. row < n" and "length ng = n"
    and "cur \<noteq> []"
  shows "fold (\<lambda>row s. colLoopS cur [length st ..< length st + n] row 0 s) rs (st @ ng)
         = st @ fold (rowLoop (deref st cur)) rs ng"
  using assms(2,3)
proof (induction rs arbitrary: ng)
  case Nil
  show ?case by simp
next
  case (Cons row rs)
  have row: "row < length ng" using Cons.prems by simp
  have len: "length (rowLoop (deref st cur) row ng) = n"
    using Cons.prems(2) by (simp add: rowLoop_length)
  have "colLoopS cur [length st ..< length st + n] row 0 (st @ ng)
        = st @ rowLoop (deref st cur) row ng"
    using rowLoopS_fresh[OF assms(1) row assms(4)] Cons.prems(2) by simp
  then show ?case
    using Cons.IH[OF _ len] Cons.prems(1) by simp
qed

lemma nextGenerationS_refines:
  assumes "\<forall>a \<in> set cur. a < length st"
  shows "nextGenerationS st cur
         = (st @ nextGeneration (deref st cur), [length st ..< length st + length cur])"
proof (cases "cur = []")
  case True
  then show ?thesis
    by (simp add: nextGenerationS_def nextGeneration_def deref_def)
next
  case False
  have len: "length (deref st cur) = length cur" by (simp add: deref_def)
  have "fold (\<lambda>row s. colLoopS cur [length st ..< length st + length cur] row 0 s)
          [0 ..< length cur] (st @ deref st cur)
        = st @ fold (rowLoop (deref st cur)) [0 ..< length cur] (deref st cur)"
    by (rule outerLoopS_fresh[OF assms _ len False]) simp
  then show ?thesis
    by (simp add: nextGenerationS_def copyRows_append[OF assms] nextGeneration_def len)
qed

lemma rectangular_nextGeneration:
  assumes "rectangular R C g"
  shows "rectangular R C (nextGeneration g)"
  unfolding nextGeneration_rectangular[OF assms]
  by (auto simp: rectangular_def list_all_iff nextCell_def)

lemma nextGeneration_nth:
  assumes "rectangular R C g" and "r < R" and "c < C"
  shows "nextGeneration g ! r ! c = nextCell g r c"
  unfolding nextGeneration_rectangular[OF assms(1)] using assms(2,3) by simp

text \<open>
  Claim C1. Run on a store in which \<open>currentGrid\<close> refers to a rectangular grid of
  \<open>R\<close> rows and \<open>C\<close> columns, \<open>nextGeneration\<close> returns a grid of the same dimensions
  in which a cell is alive exactly if it was alive with 2 or 3 live neighbours or dead
  with 3 live neighbours, every neighbour count being that of the input grid as it was
  before the call; the rows of the result are fresh arrays, no array that existed before
  the call is changed (so the input grid is not mutated), and the value returned is
  that of the function \<open>nextGeneration\<close> on grid values.
\<close>

theorem nextGeneration_snapshot:
  assumes "\<forall>a \<in> set currentGrid. a < length st"
    and "rectangular R C (deref st currentGrid)"
  shows "\<exists>st' newGrid. nextGenerationS st currentGrid = (st', newGrid)
           \<and> (\<forall>a < length st. st' ! a = st ! a)
           \<and> deref st' currentGrid = deref st currentGrid
           \<and> set newGrid \<inter> set currentGrid = {}
           \<and> deref st' newGrid = nextGeneration (deref st currentGrid)
           \<and> rectangular R C (deref st' newGrid)
           \<and> (\<forall>r < R. \<forall>c < C. deref st' newGrid ! r ! c
                 = Some (b3s23 (deref st currentGrid ! r ! c = Some True)
                          (countNeighbors (deref st currentGrid) (int r) (int c))))"
proof -
  let ?g = "deref st currentGrid"
  let ?st' = "st @ nextGeneration ?g"
  let ?new = "[length st ..< length st + length currentGrid]"
  have run: "nextGenerationS st currentGrid = (?st', ?new)"
    by (rule nextGenerationS_refines[OF assms(1)])
  have R: "length currentGrid = R"
    using assms(2) by (simp add: rectangular_def deref_def)
  have lenN: "length (nextGeneration ?g) = R"
    using rectangular_nextGeneration[OF assms(2)] by (simp add: rectangular_def)
  have old: "\<forall>a < length st. ?st' ! a = st ! a"
    by (simp add: nth_append)
  have input: "deref ?st' currentGrid = ?g"
    by (rule deref_append[OF assms(1)])
  have fresh: "set ?new \<inter> set currentGrid = {}"
    using assms(1) by auto
  have out: "deref ?st' ?new = nextGeneration ?g"
    using lenN R by (auto simp: deref_def nth_append intro!: nth_equalityI)
  have cells: "\<forall>r < R. \<forall>c < C. nextGeneration ?g ! r ! c
                 = Some (b3s23 (?g ! r ! c = Some True) (countNeighbors ?g (int r) (int c)))"
    using nextGeneration_nth[OF assms(2)] by (simp add: nextCell_def)
  show ?thesis
    using run old input fresh out rectangular_nextGeneration[OF assms(2)] cells
    by (intro exI[of _ ?st'] exI[of _ ?new]) (simp only: simp_thms)
qed

theorem nextGeneration_snapshot_witness:
  "length blinkerRow3 = 3
   \<and> rectangular 3 3 (deref blinkerRow3 [0, 1, 2])
   \<and> (\<exists>st' newGrid. nextGenerationS blinkerRow3 [0, 1, 2] = (st', newGrid)
         \<and> deref st' [0, 1, 2] = blinkerRow3
         \<and> deref st' newGrid = blinkerColumn3)"
proof -
  have v: "\<forall>a \<in> set [0, 1, 2]. a < length blinkerRow3"
    by (simp add: blinkerRow3_def)
  have d: "deref blinkerRow3 [0, 1, 2] = blinkerRow3"
    by (simp add: deref_def blinkerRow3_def)
  have r: "rectangular 3 3 (deref blinkerRow3 [0, 1, 2])"
    unfolding d by code_simp
  have n: "nextGeneration blinkerRow3 = blinkerColumn3"
    by code_simp
  have l: "length blinkerRow3 = 3"
    by (simp add: blinkerRow3_def)
  from nextGeneration_snapshot[OF v r] d n l r show ?thesis
    by auto
qed

section \<open>The blinker\<close>

lemma rectangular_gridOf: "rectangular R C (gridOf R C f)"
  by (auto simp: rectangular_def gridOf_def list_all_iff)

lemma gridOf_nth: "i < R \<Longrightarrow> j < C \<Longrightarrow> gridOf R C f ! i ! j = Some (f i j)"
  by (simp add: gridOf_def)

lemma rectangular_eq_gridOf:
  assumes "rectangular R C g"
  shows "g = gridOf R C (\<lambda>i j. g ! i ! j = Some True)"
proof (rule nth_equalityI)
  show "length g = length (gridOf R C (\<lambda>i j. g ! i ! j = Some True))"
    using assms by (simp add: rectangular_def gridOf_def)
next
  fix i assume "i < length g"
  then have i: "i < R" using assms by (simp add: rectangular_def)
  have len: "length (g ! i) = C" using rectangular_row[OF assms i] .
  show "g ! i = gridOf R C (\<lambda>i j. g ! i ! j = Some True) ! i"
  proof (rule nth_equalityI)
    show "length (g ! i) = length (gridOf R C (\<lambda>i j. g ! i ! j = Some True) ! i)"
      using i len by (simp add: gridOf_def)
  next
    fix j assume "j < length (g ! i)"
    then have j: "j < C" using len by simp
    from rectangular_cell[OF assms i j] obtain b where "g ! i ! j = Some b" by blast
    then show "g ! i ! j = gridOf R C (\<lambda>i j. g ! i ! j = Some True) ! i ! j"
      using i j by (simp add: gridOf_nth)
  qed
qed

lemma gridOf_cong:
  assumes "\<And>i j. i < R \<Longrightarrow> j < C \<Longrightarrow> f i j = f' i j"
  shows "gridOf R C f = gridOf R C f'"
  using assms by (simp add: gridOf_def)

lemma nextGeneration_gridOf:
  "nextGeneration (gridOf R C f)
   = gridOf R C (\<lambda>i j. b3s23 (f i j) (countNeighbors (gridOf R C f) (int i) (int j)))"
  unfolding nextGeneration_rectangular[OF rectangular_gridOf]
  by (simp add: gridOf_def nextCell_def)

lemma liveOffset_gridOf:
  "liveOffset (gridOf R C f) row col d = (hit R C f (row + fst d) (col + snd d) = 1)"
proof (cases "0 \<le> row + fst d \<and> row + fst d < int R \<and> 0 \<le> col + snd d \<and> col + snd d < int C")
  case True
  then have "nat (row + fst d) < R" and "nat (col + snd d) < C" by auto
  then have "gridOf R C f ! nat (row + fst d) ! nat (col + snd d)
             = Some (f (nat (row + fst d)) (nat (col + snd d)))"
    and "length (gridOf R C f ! nat (row + fst d)) = C"
    by (simp_all add: gridOf_nth rectangular_row[OF rectangular_gridOf])
  then show ?thesis
    using True \<open>nat (col + snd d) < C\<close>
    by (simp add: liveOffset_def inGrid_rectangular[OF rectangular_gridOf]
        cellAt_def jsGet_def truthy_def hit_def)
next
  case False
  then show ?thesis
    by (auto simp: liveOffset_def inGrid_rectangular[OF rectangular_gridOf] hit_def)
qed

lemma length_filter_hits:
  "int (length (filter (\<lambda>d. h d = (1::int)) ds)) = sum_list (map h ds)"
  if "\<And>d. h d = 0 \<or> h d = 1"
proof (induction ds)
  case Nil
  show ?case by simp
next
  case (Cons d ds)
  then show ?case using that[of d] by auto
qed

lemma hit_01: "hit R C f a b = 0 \<or> hit R C f a b = 1"
  by (simp add: hit_def)

lemma countNeighbors_gridOf:
  "countNeighbors (gridOf R C f) i j
   = hit R C f (i - 1) (j - 1) + hit R C f (i - 1) j + hit R C f (i - 1) (j + 1)
   + hit R C f i (j - 1) + hit R C f i (j + 1)
   + hit R C f (i + 1) (j - 1) + hit R C f (i + 1) j + hit R C f (i + 1) (j + 1)"
proof -
  have "countNeighbors (gridOf R C f) i j
        = int (length (filter (\<lambda>d. hit R C f (i + fst d) (j + snd d) = 1) directions))"
  proof -
    have "liveOffset (gridOf R C f) i j = (\<lambda>d. hit R C f (i + fst d) (j + snd d) = 1)"
      by (rule ext) (rule liveOffset_gridOf)
    then show ?thesis by (simp add: countNeighbors_filter)
  qed
  also have "\<dots> = sum_list (map (\<lambda>d. hit R C f (i + fst d) (j + snd d)) directions)"
    by (rule length_filter_hits) (rule hit_01)
  also have "\<dots> = hit R C f (i - 1) (j - 1) + hit R C f (i - 1) j + hit R C f (i - 1) (j + 1)
   + hit R C f i (j - 1) + hit R C f i (j + 1)
   + hit R C f (i + 1) (j - 1) + hit R C f (i + 1) j + hit R C f (i + 1) (j + 1)"
    by (simp add: directions_def)
  finally show ?thesis .
qed


lemma hit_horizontal:
  assumes "r < R" and "1 \<le> c" and "c + 1 < C"
  shows "hit R C (horizontalBlinker r c) a b
         = (if a = int r \<and> (b = int c - 1 \<or> b = int c \<or> b = int c + 1) then 1 else 0)"
  using assms by (auto simp: hit_def horizontalBlinker_def)

lemma hit_vertical:
  assumes "c < C" and "1 \<le> r" and "r + 1 < R"
  shows "hit R C (verticalBlinker r c) a b
         = (if b = int c \<and> (a = int r - 1 \<or> a = int r \<or> a = int r + 1) then 1 else 0)"
  using assms by (auto simp: hit_def verticalBlinker_def)

lemma horizontal_step_cell:
  assumes "1 \<le> r" and "r + 1 < R" and "1 \<le> c" and "c + 1 < C" and "i < R" and "j < C"
  shows "b3s23 (horizontalBlinker r c i j)
           (countNeighbors (gridOf R C (horizontalBlinker r c)) (int i) (int j))
         = verticalBlinker r c i j"
proof -
  have r: "r < R" using assms by simp
  note h = hit_horizontal[OF r assms(3,4)]
  consider "int i < int r - 1" | "int i = int r - 1" | "int i = int r" | "int i = int r + 1"
    | "int i > int r + 1" by linarith
  then show ?thesis
  proof cases
    case 1
    then show ?thesis
      unfolding countNeighbors_gridOf h
      by (auto simp: b3s23_def horizontalBlinker_def verticalBlinker_def)
  next
    case 2
    then show ?thesis
      unfolding countNeighbors_gridOf h
      by (auto simp: b3s23_def horizontalBlinker_def verticalBlinker_def)
  next
    case 3
    then show ?thesis
      unfolding countNeighbors_gridOf h
      by (auto simp: b3s23_def horizontalBlinker_def verticalBlinker_def)
  next
    case 4
    then show ?thesis
      unfolding countNeighbors_gridOf h
      by (auto simp: b3s23_def horizontalBlinker_def verticalBlinker_def)
  next
    case 5
    then show ?thesis
      unfolding countNeighbors_gridOf h
      by (auto simp: b3s23_def horizontalBlinker_def verticalBlinker_def)
  qed
qed


lemma vertical_step_cell:
  assumes "1 \<le> r" and "r + 1 < R" and "1 \<le> c" and "c + 1 < C" and "i < R" and "j < C"
  shows "b3s23 (verticalBlinker r c i j)
           (countNeighbors (gridOf R C (verticalBlinker r c)) (int i) (int j))
         = horizontalBlinker r c i j"
proof -
  have c: "c < C" using assms by simp
  note h = hit_vertical[OF c assms(1,2)]
  consider "int j < int c - 1" | "int j = int c - 1" | "int j = int c" | "int j = int c + 1"
    | "int j > int c + 1" by linarith
  then show ?thesis
  proof cases
    case 1
    then show ?thesis
      unfolding countNeighbors_gridOf h
      by (auto simp: b3s23_def horizontalBlinker_def verticalBlinker_def)
  next
    case 2
    then show ?thesis
      unfolding countNeighbors_gridOf h
      by (auto simp: b3s23_def horizontalBlinker_def verticalBlinker_def)
  next
    case 3
    then show ?thesis
      unfolding countNeighbors_gridOf h
      by (auto simp: b3s23_def horizontalBlinker_def verticalBlinker_def)
  next
    case 4
    then show ?thesis
      unfolding countNeighbors_gridOf h
      by (auto simp: b3s23_def horizontalBlinker_def verticalBlinker_def)
  next
    case 5
    then show ?thesis
      unfolding countNeighbors_gridOf h
      by (auto simp: b3s23_def horizontalBlinker_def verticalBlinker_def)
  qed
qed

lemma nextGeneration_horizontal:
  assumes "1 \<le> r" and "r + 1 < R" and "1 \<le> c" and "c + 1 < C"
  shows "nextGeneration (gridOf R C (horizontalBlinker r c)) = gridOf R C (verticalBlinker r c)"
  unfolding nextGeneration_gridOf
  by (rule gridOf_cong) (rule horizontal_step_cell[OF assms])

lemma nextGeneration_vertical:
  assumes "1 \<le> r" and "r + 1 < R" and "1 \<le> c" and "c + 1 < C"
  shows "nextGeneration (gridOf R C (verticalBlinker r c)) = gridOf R C (horizontalBlinker r c)"
  unfolding nextGeneration_gridOf
  by (rule gridOf_cong) (rule vertical_step_cell[OF assms])

text \<open>
  Claim C4. A rectangular grid whose live cells are exactly the three cells
  \<open>(r, c - 1)\<close>, \<open>(r, c)\<close>, \<open>(r, c + 1)\<close>, with the cells above and below the centre
  inside the grid, becomes after one \<open>nextGeneration\<close> exactly the vertical blinker
  \<open>(r - 1, c)\<close>, \<open>(r, c)\<close>, \<open>(r + 1, c)\<close>, and after two the original grid.
\<close>

theorem blinker_period_2:
  assumes "rectangular R C g"
    and "\<forall>i < R. \<forall>j < C. (g ! i ! j = Some True) = horizontalBlinker r c i j"
    and "1 \<le> r" and "r + 1 < R" and "1 \<le> c" and "c + 1 < C"
  shows "nextGeneration g = gridOf R C (verticalBlinker r c)
         \<and> nextGeneration (nextGeneration g) = g"
proof -
  have "g = gridOf R C (\<lambda>i j. g ! i ! j = Some True)"
    by (rule rectangular_eq_gridOf[OF assms(1)])
  also have "\<dots> = gridOf R C (horizontalBlinker r c)"
    using assms(2) by (intro gridOf_cong) simp
  finally have g: "g = gridOf R C (horizontalBlinker r c)" .
  show ?thesis
    unfolding g
    by (simp add: nextGeneration_horizontal[OF assms(3-6)] nextGeneration_vertical[OF assms(3-6)])
qed

theorem blinker_period_2_witness:
  "rectangular 3 3 blinkerRow3
   \<and> nextGeneration blinkerRow3 = blinkerColumn3
   \<and> nextGeneration (nextGeneration blinkerRow3) = blinkerRow3"
proof -
  have r: "rectangular 3 3 blinkerRow3"
    by code_simp
  have live: "\<forall>i < 3. \<forall>j < 3. (blinkerRow3 ! i ! j = Some True) = horizontalBlinker 1 1 i j"
    by (simp add: blinkerRow3_def horizontalBlinker_def All_less_Suc numeral_3_eq_3)
  have col: "gridOf 3 3 (verticalBlinker 1 1) = blinkerColumn3"
    by code_simp
  have bounds: "1 \<le> (1::nat)" "1 + 1 < (3::nat)"
    by simp_all
  note step = blinker_period_2[OF r live bounds(1) bounds(2) bounds(1) bounds(2)]
  from step have one: "nextGeneration blinkerRow3 = gridOf 3 3 (verticalBlinker 1 1)"
    and two: "nextGeneration (nextGeneration blinkerRow3) = blinkerRow3"
    by blast+
  from one col have "nextGeneration blinkerRow3 = blinkerColumn3"
    by (rule trans)
  with two r show ?thesis
    by blast
qed

section \<open>Grid dimensions\<close>

lemma rows_clamp:
  fixes x :: int
  shows "8 \<le> max (min x (if M then 25 else 40)) 8"
    and "max (min x (if M then 25 else 40)) 8 \<le> 40"
    and "M \<Longrightarrow> max (min x (if M then 25 else 40)) 8 \<le> 25"
  by auto

lemma cols_clamp:
  fixes x :: int
  shows "10 \<le> max (min x 40) 10" and "max (min x 40) 10 \<le> 40"
  by auto

lemma getGridDimensions_rows:
  "8 \<le> rows (getGridDimensions win) \<and> rows (getGridDimensions win) \<le> 40
   \<and> (isMobile (getGridDimensions win) \<longrightarrow> rows (getGridDimensions win) \<le> 25)"
  unfolding getGridDimensions_def Let_def dimensions.select_convs
  by (intro conjI impI rows_clamp)

lemma getGridDimensions_cols:
  "10 \<le> cols (getGridDimensions win) \<and> cols (getGridDimensions win) \<le> 40"
  unfolding getGridDimensions_def Let_def dimensions.select_convs
  by (intro conjI cols_clamp)

lemma dimensions_valid: "\<not> invalidDimensions (getGridDimensions win)"
  using getGridDimensions_rows[of win] getGridDimensions_cols[of win]
  by (simp add: invalidDimensions_def)

lemma initializeGrid_no_fallback:
  "initializeGrid win
   = replicate (nat (rows (getGridDimensions win)))
       (replicate (nat (cols (getGridDimensions win))) (Some False))"
  by (simp add: initializeGrid_def Let_def dimensions_valid)

lemma isMobile_iff:
  "isMobile (getGridDimensions (Some w)) = (innerWidth w < 768)"
  unfolding getGridDimensions_def Let_def dimensions.select_convs by simp

text \<open>
  Claim C8. Whatever the window's width and height, the computed number of rows lies in
  \<open>[8, 25]\<close> on mobile and in \<open>[8, 40]\<close> otherwise, the number of columns lies in
  \<open>[10, 40]\<close>, and so the guard of the fallback branch of \<open>initializeGrid\<close> is false:
  the grid built is the all-dead grid of the computed dimensions, never the default
  15 by 20 grid of the fallback.
\<close>

theorem gridDimensions_clamped:
  "(isMobile (getGridDimensions win)
      \<longrightarrow> 8 \<le> rows (getGridDimensions win) \<and> rows (getGridDimensions win) \<le> 25)
   \<and> (\<not> isMobile (getGridDimensions win)
      \<longrightarrow> 8 \<le> rows (getGridDimensions win) \<and> rows (getGridDimensions win) \<le> 40)
   \<and> 10 \<le> cols (getGridDimensions win) \<and> cols (getGridDimensions win) \<le> 40
   \<and> \<not> invalidDimensions (getGridDimensions win)
   \<and> initializeGrid win
       = replicate (nat (rows (getGridDimensions win)))
           (replicate (nat (cols (getGridDimensions win))) (Some False))"
  using getGridDimensions_rows[of win] getGridDimensions_cols[of win]
    dimensions_valid[of win] initializeGrid_no_fallback[of win]
  by blast

theorem gridDimensions_clamped_witness:
  "isMobile (getGridDimensions (Some \<lparr> innerWidth = 500, innerHeight = 8000 \<rparr>))
   \<and> rows (getGridDimensions (Some \<lparr> innerWidth = 500, innerHeight = 8000 \<rparr>)) = 25
   \<and> rows (getGridDimensions (Some \<lparr> innerWidth = 500, innerHeight = 8000 \<rparr>)) \<le> 25
   \<and> \<not> isMobile (getGridDimensions (Some \<lparr> innerWidth = 1920, innerHeight = 1080 \<rparr>))
   \<and> rows (getGridDimensions (Some \<lparr> innerWidth = 1920, innerHeight = 1080 \<rparr>)) = 40
   \<and> rows (getGridDimensions (Some \<lparr> innerWidth = 1920, innerHeight = 1080 \<rparr>)) \<le> 40"
proof -
  have m: "isMobile (getGridDimensions (Some \<lparr> innerWidth = 500, innerHeight = 8000 \<rparr>))"
    by (simp add: isMobile_iff)
  have d: "\<not> isMobile (getGridDimensions (Some \<lparr> innerWidth = 1920, innerHeight = 1080 \<rparr>))"
    by (simp add: isMobile_iff)
  have r1: "rows (getGridDimensions (Some \<lparr> innerWidth = 500, innerHeight = 8000 \<rparr>)) = 25"
    by (simp add: getGridDimensions_def CELL_SIZE_def)
  have r2: "rows (getGridDimensions (Some \<lparr> innerWidth = 1920, innerHeight = 1080 \<rparr>)) = 40"
    by (simp add: getGridDimensions_def CELL_SIZE_def)
  from m d r1 r2
    gridDimensions_clamped[of "Some \<lparr> innerWidth = 500, innerHeight = 8000 \<rparr>"]
    gridDimensions_clamped[of "Some \<lparr> innerWidth = 1920, innerHeight = 1080 \<rparr>"]
  show ?thesis by blast
qed

lemma population_replicate:
  "getPopulation (replicate r (replicate c (Some False))) = 0"
  by (auto simp: getPopulation_def truthy_def filter_empty_conv)

lemma rectangular_replicate:
  "rectangular r c (replicate r (replicate c (Some False)))"
  by (auto simp: rectangular_def list_all_iff)

text \<open>
  Claim C7. From any state, \<open>clearGrid\<close> yields a state whose grid is the all-dead grid
  of the dimensions computed for the current window (its population is 0), whose
  generation counter is 0 and whose \<open>isRunning\<close> flag is false.
\<close>

theorem clearGrid_resets:
  "grid (clearGrid win s)
     = replicate (nat (rows (getGridDimensions win)))
         (replicate (nat (cols (getGridDimensions win))) (Some False))
   \<and> rectangular (nat (rows (getGridDimensions win))) (nat (cols (getGridDimensions win)))
        (grid (clearGrid win s))
   \<and> getPopulation (grid (clearGrid win s)) = 0
   \<and> generation (clearGrid win s) = 0
   \<and> isRunning (clearGrid win s) = False"
  by (simp add: clearGrid_def initializeGrid_no_fallback population_replicate
      rectangular_replicate)

theorem clearGrid_resets_witness:
  "grid (clearGrid (Some \<lparr> innerWidth = 1920, innerHeight = 1080 \<rparr>)
           (initialState\<lparr> grid := blinkerRow3, isRunning := True, generation := 7 \<rparr>))
     = replicate 40 (replicate 40 (Some False))
   \<and> generation (clearGrid (Some \<lparr> innerWidth = 1920, innerHeight = 1080 \<rparr>)
           (initialState\<lparr> grid := blinkerRow3, isRunning := True, generation := 7 \<rparr>)) = 0"
proof -
  have r: "rows (getGridDimensions (Some \<lparr> innerWidth = 1920, innerHeight = 1080 \<rparr>)) = 40"
    by (simp add: getGridDimensions_def CELL_SIZE_def)
  have c: "cols (getGridDimensions (Some \<lparr> innerWidth = 1920, innerHeight = 1080 \<rparr>)) = 40"
    by (simp add: getGridDimensions_def CELL_SIZE_def)
  from clearGrid_resets[of "Some \<lparr> innerWidth = 1920, innerHeight = 1080 \<rparr>"
      "initialState\<lparr> grid := blinkerRow3, isRunning := True, generation := 7 \<rparr>"] r c
  show ?thesis by simp
qed

section \<open>Pointer events\<close>

text \<open>
  Claim C10. In every state, running or not, \<open>handleMouseUp\<close> sets \<open>isDragging\<close> to
  false and leaves the grid, the generation counter, the speed, \<open>isRunning\<close> and the
  drag mode as they were.
\<close>

theorem handleMouseUp_frame:
  "isDragging (handleMouseUp s) = False
   \<and> grid (handleMouseUp s) = grid s
   \<and> generation (handleMouseUp s) = generation s
   \<and> speed (handleMouseUp s) = speed s
   \<and> isRunning (handleMouseUp s) = isRunning s
   \<and> dragMode (handleMouseUp s) = dragMode s"
  by (simp add: handleMouseUp_def)

text \<open>
  Claim C5. While \<open>isRunning\<close> is true, a pointer-down or a pointer-enter on any cell
  returns the state unchanged, and a pointer-up leaves the grid and the generation
  counter unchanged.
\<close>

theorem pointer_events_ignored_while_running:
  assumes "isRunning s"
  shows "handleMouseDown s row col = Inr s
         \<and> handleMouseEnter s row col = Inr s
         \<and> grid (handleMouseUp s) = grid s
         \<and> generation (handleMouseUp s) = generation s"
  using assms
  by (simp add: handleMouseDown_def handleMouseEnter_def handleCellInteraction_def
      handleMouseUp_def)

theorem pointer_events_ignored_while_running_witness:
  "isRunning (initialState\<lparr> grid := blinkerRow3, isRunning := True \<rparr>)
   \<and> handleMouseDown (initialState\<lparr> grid := blinkerRow3, isRunning := True \<rparr>) 1 1
       = Inr (initialState\<lparr> grid := blinkerRow3, isRunning := True \<rparr>)
   \<and> handleMouseEnter (initialState\<lparr> grid := blinkerRow3, isRunning := True \<rparr>) 1 2
       = Inr (initialState\<lparr> grid := blinkerRow3, isRunning := True \<rparr>)
   \<and> grid (handleMouseUp (initialState\<lparr> grid := blinkerRow3, isRunning := True \<rparr>))
       = blinkerRow3"
proof -
  have run: "isRunning (initialState\<lparr> grid := blinkerRow3, isRunning := True \<rparr>)"
    by simp
  from pointer_events_ignored_while_running[OF run] run show ?thesis
    by simp
qed

lemma rectangular_length: "rectangular R C g \<Longrightarrow> length g = R"
  by (simp add: rectangular_def)

lemma rectangular_set_cell:
  assumes "rectangular R C g" and "r < R" and "c < C"
  shows "rectangular R C (g[r := (g ! r)[c := Some b]])"
  using assms
  by (auto simp: rectangular_def list_all_length nth_list_update)

lemma toggleCell_rectangular:
  assumes "rectangular R C g" and "r < R" and "c < C" and "g ! r ! c = Some v"
  shows "toggleCell r c g = Inr (g[r := (g ! r)[c := Some (\<not> v)]])"
  using assms rectangular_row[OF assms(1,2)] rectangular_length[OF assms(1)]
  by (simp add: toggleCell_def jsPut_def jsGet_def truthy_def)

lemma pressedMode_rectangular:
  assumes "rectangular R C g" and "r < R" and "c < C" and "g ! r ! c = Some v"
  shows "pressedMode g r c = Inr (if v then Erase else Paint)"
  using assms rectangular_row[OF assms(1,2)] rectangular_length[OF assms(1)]
  by (simp add: pressedMode_def cellAt_def jsGet_def truthy_def)

lemma dragCell_rectangular:
  assumes "rectangular R C g" and "r < R" and "c < C"
  shows "dragCell m r c g = Inr (g[r := (g ! r)[c := Some (m = Paint)]])"
  using assms rectangular_row[OF assms(1,2)] rectangular_length[OF assms(1)]
  by (simp add: dragCell_def jsPut_def)

lemma handleMouseDown_paused:
  assumes "\<not> isRunning s" and "rectangular R C (grid s)" and "r < R" and "c < C"
    and "grid s ! r ! c = Some v"
  shows "handleMouseDown s r c
         = Inr (s\<lparr> grid := (grid s)[r := (grid s ! r)[c := Some (\<not> v)]],
                  dragMode := (if v then Erase else Paint), isDragging := True \<rparr>)"
  using assms(1)
  by (simp add: handleMouseDown_def handleCellInteraction_def
      toggleCell_rectangular[OF assms(2-5)] pressedMode_rectangular[OF assms(2-5)])

lemma handleMouseEnter_dragging:
  assumes "\<not> isRunning s" and "isDragging s" and "rectangular R C (grid s)"
    and "r < R" and "c < C"
  shows "handleMouseEnter s r c
         = Inr (s\<lparr> grid := (grid s)[r := (grid s ! r)[c := Some (dragMode s = Paint)]] \<rparr>)"
  using assms(1,2)
  by (simp add: handleMouseEnter_def handleCellInteraction_def
      dragCell_rectangular[OF assms(3-5)])

lemma set_cell_nth:
  assumes "rectangular R C g" and "r < R" and "c < C" and "r' < R" and "c' < C"
  shows "g[r := (g ! r)[c := Some b]] ! r' ! c'
         = (if (r', c') = (r, c) then Some b else g ! r' ! c')"
  using assms rectangular_row[OF assms(1,2)] rectangular_length[OF assms(1)]
  by (auto simp: nth_list_update)

lemma enterCells_dragging:
  assumes "\<not> isRunning s" and "isDragging s" and "rectangular R C (grid s)"
    and "\<forall>(r, c) \<in> set es. r < R \<and> c < C"
  shows "\<exists>s'. enterCells s es = Inr s'
           \<and> dragMode s' = dragMode s \<and> generation s' = generation s
           \<and> isDragging s' \<and> \<not> isRunning s' \<and> speed s' = speed s
           \<and> rectangular R C (grid s')
           \<and> (\<forall>r < R. \<forall>c < C. grid s' ! r ! c
                 = (if (r, c) \<in> set es then Some (dragMode s = Paint) else grid s ! r ! c))"
  using assms
proof (induction es arbitrary: s)
  case Nil
  then show ?case by simp
next
  case (Cons e es)
  obtain r c where e: "e = (r, c)" by (cases e)
  have rc: "r < R" "c < C" using Cons.prems(4) e by auto
  let ?s1 = "s\<lparr> grid := (grid s)[r := (grid s ! r)[c := Some (dragMode s = Paint)]] \<rparr>"
  have step: "handleMouseEnter s r c = Inr ?s1"
    by (rule handleMouseEnter_dragging[OF Cons.prems(1,2,3) rc])
  have rect1: "rectangular R C (grid ?s1)"
    using rectangular_set_cell[OF Cons.prems(3) rc] by simp
  have "\<exists>s'. enterCells ?s1 es = Inr s'
           \<and> dragMode s' = dragMode ?s1 \<and> generation s' = generation ?s1
           \<and> isDragging s' \<and> \<not> isRunning s' \<and> speed s' = speed ?s1
           \<and> rectangular R C (grid s')
           \<and> (\<forall>r < R. \<forall>c < C. grid s' ! r ! c
                 = (if (r, c) \<in> set es then Some (dragMode ?s1 = Paint) else grid ?s1 ! r ! c))"
    using Cons.prems rect1 by (intro Cons.IH) auto
  then obtain s' where s': "enterCells ?s1 es = Inr s'"
      "dragMode s' = dragMode s" "generation s' = generation s"
      "isDragging s'" "\<not> isRunning s'" "speed s' = speed s" "rectangular R C (grid s')"
      and cells: "\<forall>r < R. \<forall>c < C. grid s' ! r ! c
                 = (if (r, c) \<in> set es then Some (dragMode s = Paint) else grid ?s1 ! r ! c)"
    by auto
  have "enterCells s (e # es) = Inr s'"
    using step s'(1) e by simp
  moreover have "\<forall>r' < R. \<forall>c' < C. grid s' ! r' ! c'
                 = (if (r', c') \<in> set (e # es) then Some (dragMode s = Paint) else grid s ! r' ! c')"
    using cells set_cell_nth[OF Cons.prems(3) rc] e by auto
  ultimately show ?case using s' by blast
qed

text \<open>
  Claim C6. A drag gesture started while not running: the pointer-down on a cell holding
  \<open>v\<close> toggles that cell to \<open>\<not> v\<close>, starts the drag and sets the drag mode to erase
  if \<open>v\<close> was alive and to paint if it was dead; the mode stays the same through all
  the pointer-enters that follow, each of which sets its cell to alive exactly if the
  mode is paint, so that at the end the pressed cell and every entered cell hold
  \<open>\<not> v\<close> and every other cell is as before; the generation counter never changes.
\<close>

theorem drag_gesture:
  assumes "\<not> isRunning s" and "rectangular R C (grid s)" and "r0 < R" and "c0 < C"
    and "grid s ! r0 ! c0 = Some v" and "\<forall>(r, c) \<in> set es. r < R \<and> c < C"
  shows "\<exists>s1 s2. handleMouseDown s r0 c0 = Inr s1 \<and> enterCells s1 es = Inr s2
           \<and> grid s1 = (grid s)[r0 := (grid s ! r0)[c0 := Some (\<not> v)]]
           \<and> dragMode s1 = (if v then Erase else Paint) \<and> isDragging s1
           \<and> dragMode s2 = dragMode s1
           \<and> generation s1 = generation s \<and> generation s2 = generation s
           \<and> (\<forall>r < R. \<forall>c < C. grid s2 ! r ! c
                 = (if (r, c) \<in> set es then Some (dragMode s1 = Paint) else grid s1 ! r ! c))
           \<and> (\<forall>r < R. \<forall>c < C. grid s2 ! r ! c
                 = (if (r, c) = (r0, c0) \<or> (r, c) \<in> set es then Some (\<not> v)
                    else grid s ! r ! c))"
proof -
  define g1 where "g1 = (grid s)[r0 := (grid s ! r0)[c0 := Some (\<not> v)]]"
  define m where "m = (if v then Erase else Paint)"
  define s1 where "s1 = s\<lparr> grid := g1, dragMode := m, isDragging := True \<rparr>"
  have down: "handleMouseDown s r0 c0 = Inr s1"
    unfolding s1_def g1_def m_def by (rule handleMouseDown_paused[OF assms(1-5)])
  have fields: "grid s1 = g1" "dragMode s1 = m" "isDragging s1" "\<not> isRunning s1"
    "generation s1 = generation s"
    using assms(1) by (simp_all add: s1_def)
  have rect1: "rectangular R C (grid s1)"
    using rectangular_set_cell[OF assms(2-4)] by (simp add: fields g1_def)
  from enterCells_dragging[OF fields(4) fields(3) rect1 assms(6)]
  obtain s2 where s2: "enterCells s1 es = Inr s2" "dragMode s2 = dragMode s1"
      "generation s2 = generation s1"
    and cells: "\<forall>r < R. \<forall>c < C. grid s2 ! r ! c
                 = (if (r, c) \<in> set es then Some (dragMode s1 = Paint) else grid s1 ! r ! c)"
    by blast
  have mode: "(dragMode s1 = Paint) = (\<not> v)"
    by (simp add: fields m_def)
  have pressed: "\<forall>r < R. \<forall>c < C. g1 ! r ! c
                   = (if (r, c) = (r0, c0) then Some (\<not> v) else grid s ! r ! c)"
    using set_cell_nth[OF assms(2-4)] by (simp add: g1_def)
  have final: "\<forall>r < R. \<forall>c < C. grid s2 ! r ! c
                 = (if (r, c) = (r0, c0) \<or> (r, c) \<in> set es then Some (\<not> v)
                    else grid s ! r ! c)"
    using cells pressed unfolding mode fields(1) by auto
  show ?thesis
    using down s2 cells final fields
    by (intro exI[of _ s1] exI[of _ s2]) (simp add: g1_def m_def)
qed

theorem drag_gesture_witness:
  "\<not> isRunning (initialState\<lparr> grid := blinkerRow3 \<rparr>)
   \<and> (\<exists>s1 s2. handleMouseDown (initialState\<lparr> grid := blinkerRow3 \<rparr>) 1 0 = Inr s1
         \<and> enterCells s1 [(1, 1)] = Inr s2
         \<and> dragMode s2 = Erase \<and> generation s2 = 0
         \<and> grid s2 ! 1 ! 0 = Some False \<and> grid s2 ! 1 ! 1 = Some False
         \<and> grid s2 ! 1 ! 2 = Some True)
   \<and> (\<exists>s1 s2. handleMouseDown (initialState\<lparr> grid := blinkerRow3 \<rparr>) 0 0 = Inr s1
         \<and> enterCells s1 [(1, 0)] = Inr s2
         \<and> dragMode s2 = Paint \<and> generation s2 = 0
         \<and> grid s2 ! 0 ! 0 = Some True \<and> grid s2 ! 1 ! 0 = Some True)"
proof -
  let ?s = "initialState\<lparr> grid := blinkerRow3 \<rparr>"
  have paused: "\<not> isRunning ?s"
    by (simp add: initialState_def)
  have rect: "rectangular 3 3 (grid ?s)"
    by (simp, code_simp)
  have gen: "generation ?s = 0"
    by (simp add: initialState_def)
  have live: "grid ?s ! 1 ! 0 = Some True" and dead: "grid ?s ! 0 ! 0 = Some False"
    and other: "grid ?s ! 1 ! 2 = Some True"
    by (simp_all add: blinkerRow3_def)
  have e1: "\<forall>(r, c) \<in> set [(1::nat, 1::nat)]. r < 3 \<and> c < 3"
    and e2: "\<forall>(r, c) \<in> set [(1::nat, 0::nat)]. r < 3 \<and> c < 3"
    by simp_all
  from drag_gesture[OF paused rect _ _ live e1]
  obtain s1 s2 where a: "handleMouseDown ?s 1 0 = Inr s1" "enterCells s1 [(1, 1)] = Inr s2"
      "dragMode s1 = (if True then Erase else Paint)" "dragMode s2 = dragMode s1"
      "generation s2 = generation ?s"
      "\<forall>r < 3. \<forall>c < 3. grid s2 ! r ! c
                 = (if (r, c) = (1, 0) \<or> (r, c) \<in> set [(1, 1)] then Some (\<not> True)
                    else grid ?s ! r ! c)"
    by auto
  from drag_gesture[OF paused rect _ _ dead e2]
  obtain t1 t2 where b: "handleMouseDown ?s 0 0 = Inr t1" "enterCells t1 [(1, 0)] = Inr t2"
      "dragMode t1 = (if False then Erase else Paint)" "dragMode t2 = dragMode t1"
      "generation t2 = generation ?s"
      "\<forall>r < 3. \<forall>c < 3. grid t2 ! r ! c
                 = (if (r, c) = (0, 0) \<or> (r, c) \<in> set [(1, 0)] then Some (\<not> False)
                    else grid ?s ! r ! c)"
    by auto
  have "grid s2 ! 1 ! 0 = Some False" "grid s2 ! 1 ! 1 = Some False" "grid s2 ! 1 ! 2 = Some True"
    using a(6) other by simp_all
  moreover have "grid t2 ! 0 ! 0 = Some True" "grid t2 ! 1 ! 0 = Some True"
    using b(6) by simp_all
  ultimately show ?thesis
    using paused a(1-5) b(1-5) gen by auto
qed

section \<open>The game loop\<close>

lemma intervalCallback_fields:
  "grid (intervalCallback mode s) = nextGeneration (grid s)
   \<and> generation (intervalCallback mode s) = generation s + updaterInvocations mode
   \<and> isRunning (intervalCallback mode s) = isRunning s
   \<and> speed (intervalCallback mode s) = speed s
   \<and> isDragging (intervalCallback mode s) = isDragging s
   \<and> dragMode (intervalCallback mode s) = dragMode s"
  by (cases mode) (simp_all add: intervalCallback_def gridUpdater_def updaterInvocations_def)

text \<open>In a development build under StrictMode the updater runs twice and the counter
  advances by 2 for one tick, the grid by one generation.\<close>

lemma strictDevelopment_tick:
  "isRunning s \<Longrightarrow>
   map_option generation (gameLoopTick StrictDevelopment s) = Some (generation s + 2)
   \<and> map_option grid (gameLoopTick StrictDevelopment s) = Some (nextGeneration (grid s))"
  by (simp add: gameLoopTick_def intervalCallback_fields updaterInvocations_def)




section \<open>The speed slider\<close>

text \<open>
  Against claim C9: a slider value outside \<open>[100, 2000]\<close> is stored as it comes,
  without clamping. The value 50 gives a speed of 2050, not 2000, and the value 2050
  gives a speed of 50, not 100.
\<close>

theorem speed_out_of_range_counterexample:
  "speed (onValueChange 50 initialState) = 2050
   \<and> speed (onValueChange 50 initialState) \<noteq> 2000
   \<and> \<not> (100 \<le> speed (onValueChange 50 initialState)
         \<and> speed (onValueChange 50 initialState) \<le> 2000)
   \<and> speed (onValueChange 2050 initialState) = 50
   \<and> speed (onValueChange 2050 initialState) \<noteq> 100"
  by (simp add: onValueChange_def)

text \<open>
  Claim C9, amended. A speed change stores \<open>2100 - v\<close> for the slider value \<open>v\<close>,
  unclamped; the stored speed lies in \<open>[100, 2000]\<close> exactly if \<open>v\<close> does, which is the
  range the slider is configured with. Nothing else in the state changes.
\<close>

theorem speed_within_slider_range:
  "speed (onValueChange v s) = 2100 - v
   \<and> ((100 \<le> speed (onValueChange v s) \<and> speed (onValueChange v s) \<le> 2000)
        = (100 \<le> v \<and> v \<le> 2000))
   \<and> grid (onValueChange v s) = grid s
   \<and> generation (onValueChange v s) = generation s
   \<and> isRunning (onValueChange v s) = isRunning s"
  by (auto simp: onValueChange_def)

theorem speed_within_slider_range_witness:
  "speed (onValueChange 100 initialState) = 2000
   \<and> 100 \<le> speed (onValueChange 100 initialState)
   \<and> speed (onValueChange 100 initialState) \<le> 2000"
  using speed_within_slider_range[of 100 initialState] by simp

end
